theory Spec2Isabelle
  imports Main
begin

section \<open>Connector pipelines: data model\<close>

text \<open>
  The development embeds \<^verbatim>\<open>pipelines/airbyte_ci/connectors/pipeline.py\<close>:
  \<^verbatim>\<open>context_to_step_result\<close>, \<^verbatim>\<open>run_report_complete_pipeline\<close> and
  \<^verbatim>\<open>run_connectors_pipelines\<close>.

  Contexts are Python objects that the functions mutate in place, and the same object may
  occur several times in the list handed to \<^verbatim>\<open>run_connectors_pipelines\<close>. A context
  is therefore a reference into a heap of context values, and the list of contexts is a
  list of references. Every function returns its result (\<open>Inl\<close> is a raised exception),
  the heap it leaves behind and the sequence of observable events it caused, in order.
\<close>

text \<open>
  Modelled from the spec: the enumeration \<^verbatim>\<open>pipelines.consts.ContextState\<close> is imported by
  the module but is not part of the sources at hand. The terminal state of a work unit is
  one of Pending, Successful, Failure, Error.
\<close>

datatype ContextState = PENDING | SUCCESSFUL | FAILURE | ERROR

text \<open>
  Modelled from the spec: \<^verbatim>\<open>pipelines.models.steps.StepStatus\<close> is imported by the module;
  a result record carries a binary outcome. The constructors stand for
  \<^verbatim>\<open>StepStatus.SUCCESS\<close> and \<^verbatim>\<open>StepStatus.FAILURE\<close>.
\<close>

datatype StepStatus = StepStatus_SUCCESS | StepStatus_FAILURE

text \<open>
  Modelled from the spec: \<^verbatim>\<open>connector_ops.utils.ConnectorLanguage\<close> is the class key of a
  work unit (a connector's implementation language). Only \<^verbatim>\<open>JAVA\<close> is named in the module.
\<close>

datatype ConnectorLanguage = PYTHON | JAVA | LOW_CODE

type_synonym ref = nat

record Connector =
  technical_name :: string
  language :: ConnectorLanguage

datatype Secret = Secret string string

datatype DockerdService = DockerdService "(Secret \<times> Secret) option"

datatype DaggerClient = Pipeline string

text \<open>The attributes of a context that the module reads or writes.\<close>

record ConnectorContext =
  state :: ContextState
  connector :: Connector
  docker_hub_username :: "string option"
  docker_hub_password :: "string option"
  report_output_prefix :: string
  pipeline_name :: string
  dagger_client :: "DaggerClient option"
  dockerd_service :: "DockerdService option"

type_synonym heap = "ref \<Rightarrow> ConnectorContext"

text \<open>
  An \<^verbatim>\<open>anyio.Semaphore\<close> is an object with an identity and the initial value it was
  built with. The module owns one semaphore per entry of the forced-concurrency table, and
  every call of \<^verbatim>\<open>run_connectors_pipelines\<close> builds one default semaphore.
\<close>

datatype SemaphoreId = FORCED ConnectorLanguage | DEFAULT

datatype Semaphore = Semaphore SemaphoreId nat

text \<open>
  Modelled from the spec: \<^verbatim>\<open>StepResult\<close> and \<^verbatim>\<open>NoOpStep\<close> are imported by the module. A
  result record pairs a reference to its work unit with the outcome, and running a no-op
  step for a context and a status yields that pair.
\<close>

record StepResult =
  step_context :: ref
  status :: StepStatus

definition NoOpStep_run :: "ref \<Rightarrow> StepStatus \<Rightarrow> StepResult" where
  "NoOpStep_run context st = \<lparr>step_context = context, status = st\<rparr>"

record Report =
  name :: string
  pipeline_context :: ref
  steps_results :: "StepResult list"
  filename :: string

datatype error =
    IndexError
  | ValueError ContextState
  | TaskGroupError "ref list"
  | ServiceError

text \<open>
  The observable events of a run, in the order the code causes them. The type parameter is
  the type of the extra positional arguments handed through to the work function.
\<close>

datatype 'a event =
    ConnectionOpened
  | SetSecret string string
  | WithGlobalDockerdService DockerdService
  | DockerdStartCalled
  | DockerdStarted
  | TaskLaunched ref Semaphore "'a list"
  | TaskInvoked ref Semaphore "'a list"
  | TaskSuspended ref
  | TaskReturned ref
  | TaskRaised ref
  | TaskCancelled ref
  | TaskGroupJoined
  | DockerdStopCalled
  | DockerdStopped
  | ReportCreated Report
  | ReportSaved Report
  | ConnectionClosed

text \<open>
  What the collaborators outside the module do: whether \<^verbatim>\<open>dockerd_service.start()\<close> and
  \<^verbatim>\<open>dockerd_service.stop()\<close> raise. The other calls into collaborators (opening the Dagger
  connection, \<^verbatim>\<open>set_secret\<close>, \<^verbatim>\<open>pipeline\<close>, \<^verbatim>\<open>Report.save\<close>, the logger and the diagnostic
  subprocess calls) are taken to return; the logger and subprocess calls leave no event.
\<close>

record Env =
  start_raises :: bool
  stop_raises :: bool

text \<open>
  The caller's work function \<^verbatim>\<open>connector_pipeline(context, semaphore, *args)\<close> is a
  coroutine function. Called on a context, the semaphore and the extra arguments it yields
  a coroutine: a sequence of segments, each of which changes the task's own context and
  ends by suspending at an \<^verbatim>\<open>await\<close>, by returning or by raising. A segment reads the context
  as it is when the segment runs. \<open>Awaits f u k\<close> is a segment \<open>f\<close> that ends at an
  \<^verbatim>\<open>await\<close>; if the task is cancelled there, it unwinds, writing \<open>u\<close> to its context (its
  \<^verbatim>\<open>finally\<close> blocks and context managers), and otherwise it goes on as \<open>k\<close>. Coroutines are
  finite: a work function that never ends (one that waits on a semaphore no task will
  release, say) is outside the model.
\<close>

datatype coroutine =
    Returns "ConnectorContext \<Rightarrow> ConnectorContext"
  | Raises "ConnectorContext \<Rightarrow> ConnectorContext"
  | Awaits "ConnectorContext \<Rightarrow> ConnectorContext" "ConnectorContext \<Rightarrow> ConnectorContext"
      coroutine

type_synonym 'a work = "ConnectorContext \<Rightarrow> Semaphore \<Rightarrow> 'a list \<Rightarrow> coroutine"

section \<open>The outcome classifier\<close>

definition context_to_step_result :: "heap \<Rightarrow> ref \<Rightarrow> error + StepResult" where
  "context_to_step_result h context =
     (if state (h context) = SUCCESSFUL then Inr (NoOpStep_run context StepStatus_SUCCESS)
      else if state (h context) = FAILURE then Inr (NoOpStep_run context StepStatus_FAILURE)
      else if state (h context) = ERROR then Inr (NoOpStep_run context StepStatus_FAILURE)
      else Inl (ValueError (state (h context))))"

section \<open>The completion report\<close>

text \<open>
  The list comprehension \<^verbatim>\<open>[await context_to_step_result(context) for context in contexts]\<close>:
  the contexts are classified from left to right and the first exception ends it.
\<close>

fun classify_all :: "heap \<Rightarrow> ref list \<Rightarrow> error + StepResult list" where
  "classify_all h [] = Inr []"
| "classify_all h (context # contexts) =
     (case context_to_step_result h context of
        Inl e \<Rightarrow> Inl e
      | Inr r \<Rightarrow> (case classify_all h contexts of
                   Inl e \<Rightarrow> Inl e
                 | Inr rs \<Rightarrow> Inr (r # rs)))"

text \<open>The \<^verbatim>\<open>dagger_client\<close> parameter of the source is not used by its body and is left out.\<close>

definition run_report_complete_pipeline ::
  "ref list \<Rightarrow> heap \<Rightarrow> (error + unit) \<times> heap \<times> 'a event list" where
  "run_report_complete_pipeline contexts h =
     (case contexts of
        [] \<Rightarrow> (Inr (), h, [])
      | first_connector_context # _ \<Rightarrow>
          (let pipeline_name' = ''Report upload '' @ report_output_prefix (h first_connector_context);
               h1 = h(first_connector_context :=
                        (h first_connector_context)\<lparr>pipeline_name := pipeline_name'\<rparr>)
           in case classify_all h1 contexts of
                Inl e \<Rightarrow> (Inl e, h1, [])
              | Inr steps_results' \<Rightarrow>
                  (let report = \<lparr>name = pipeline_name',
                                 pipeline_context = first_connector_context,
                                 steps_results = steps_results',
                                 filename = ''complete''\<rparr>
                   in (Inr (), h1, [ReportCreated report, ReportSaved report]))))"

section \<open>The scheduler\<close>

definition CONNECTOR_LANGUAGE_TO_FORCED_CONCURRENCY_MAPPING ::
  "ConnectorLanguage \<rightharpoonup> Semaphore" where
  "CONNECTOR_LANGUAGE_TO_FORCED_CONCURRENCY_MAPPING =
     [JAVA \<mapsto> Semaphore (FORCED JAVA) 1]"

text \<open>Python truthiness of an optional string: neither \<^verbatim>\<open>None\<close> nor empty.\<close>

fun truthy :: "string option \<Rightarrow> bool" where
  "truthy None = False"
| "truthy (Some s) = (s \<noteq> [])"

text \<open>
  The body of the \<^verbatim>\<open>for context in contexts\<close> loop inside the task group: two attribute
  writes, then \<^verbatim>\<open>start_soon\<close> with the semaphore looked up for the connector's language.
  The loop has no suspension point, so no task runs before it ends; it returns the tasks
  it launched, each with the semaphore bound at launch.
\<close>

fun start_tasks ::
  "string \<Rightarrow> DockerdService \<Rightarrow> Semaphore \<Rightarrow> 'a list \<Rightarrow> ref list \<Rightarrow> heap
     \<Rightarrow> (ref \<times> Semaphore) list \<times> heap \<times> 'a event list" where
  "start_tasks pname svc default_connectors_semaphore args [] h = ([], h, [])"
| "start_tasks pname svc default_connectors_semaphore args (context # contexts) h =
     (let h1 = h(context := (h context)\<lparr>dagger_client :=
                   Some (Pipeline (pname @ '' - '' @ technical_name (connector (h context))))\<rparr>);
          h2 = h1(context := (h1 context)\<lparr>dockerd_service := Some svc\<rparr>);
          semaphore = (case CONNECTOR_LANGUAGE_TO_FORCED_CONCURRENCY_MAPPING
                              (language (connector (h2 context))) of
                         Some forced \<Rightarrow> forced
                       | None \<Rightarrow> default_connectors_semaphore);
          (tasks, h3, evs) = start_tasks pname svc default_connectors_semaphore args contexts h2
      in ((context, semaphore) # tasks, h3, TaskLaunched context semaphore args # evs))"

text \<open>
  Leaving the task group (\<^verbatim>\<open>__aexit__\<close> of \<^verbatim>\<open>anyio.create_task_group()\<close>) is the first
  suspension point of the caller after the launches. The event loop then enters every
  launched task, in the order of the launches, and lets it run its first segment: a task
  is entered even when a task entered before it has raised, and a task that never awaits
  runs to its end there.
\<close>

fun segments :: "coroutine \<Rightarrow> nat" where
  "segments (Returns f) = 1"
| "segments (Raises f) = 1"
| "segments (Awaits f u k) = Suc (segments k)"

text \<open>
  A suspended task: its context, what it writes if it is cancelled where it waits, and the
  rest of its coroutine.
\<close>

type_synonym suspended = "ref \<times> (ConnectorContext \<Rightarrow> ConnectorContext) \<times> coroutine"

fun enter_tasks ::
  "'a work \<Rightarrow> 'a list \<Rightarrow> (ref \<times> Semaphore) list \<Rightarrow> heap
     \<Rightarrow> suspended list \<times> ref list \<times> heap \<times> 'a event list" where
  "enter_tasks connector_pipeline args [] h = ([], [], h, [])"
| "enter_tasks connector_pipeline args ((context, semaphore) # tasks) h =
     (case connector_pipeline (h context) semaphore args of
        Returns f \<Rightarrow>
          (let (pool, raised, h', evs) =
                 enter_tasks connector_pipeline args tasks (h(context := f (h context)))
           in (pool, raised, h',
               TaskInvoked context semaphore args # TaskReturned context # evs))
      | Raises f \<Rightarrow>
          (let (pool, raised, h', evs) =
                 enter_tasks connector_pipeline args tasks (h(context := f (h context)))
           in (pool, context # raised, h',
               TaskInvoked context semaphore args # TaskRaised context # evs))
      | Awaits f u k \<Rightarrow>
          (let (pool, raised, h', evs) =
                 enter_tasks connector_pipeline args tasks (h(context := f (h context)))
           in ((context, u, k) # pool, raised, h',
               TaskInvoked context semaphore args # TaskSuspended context # evs)))"

text \<open>
  After that the suspended tasks are resumed one segment at a time, in an order the code
  does not fix. The order is a parameter: a list of choices, each the position of the task
  to resume among the tasks suspended at that moment (a choice out of range, or a missing
  one, stands for position 0), so that every interleaving of the tasks is such a list. Once
  a task has raised, the task group is cancelled: a suspended task is not resumed but
  cancelled at its suspension point; it unwinds and ends, keeping what its segments have
  written so far.
\<close>

definition choice :: "nat list \<Rightarrow> nat \<Rightarrow> nat" where
  "choice sched n = (case sched of [] \<Rightarrow> 0 | c # _ \<Rightarrow> if c < n then c else 0)"

definition remove_nth :: "nat \<Rightarrow> 'b list \<Rightarrow> 'b list" where
  "remove_nth i xs = take i xs @ drop (Suc i) xs"

function resume_tasks ::
  "nat list \<Rightarrow> suspended list \<Rightarrow> bool \<Rightarrow> heap \<Rightarrow> ref list \<times> heap \<times> 'a event list" where
  "resume_tasks sched pool cancelled h =
     (if pool = [] then ([], h, [])
      else
        (let i = choice sched (length pool);
             context = fst (pool ! i)
         in if cancelled
            then (let (raised, h', evs) =
                        resume_tasks (tl sched) (remove_nth i pool) True
                          (h(context := fst (snd (pool ! i)) (h context)))
                  in (raised, h', TaskCancelled context # evs))
            else (case snd (snd (pool ! i)) of
                    Returns f \<Rightarrow>
                      (let (raised, h', evs) =
                             resume_tasks (tl sched) (remove_nth i pool) False
                               (h(context := f (h context)))
                       in (raised, h', TaskReturned context # evs))
                  | Raises f \<Rightarrow>
                      (let (raised, h', evs) =
                             resume_tasks (tl sched) (remove_nth i pool) True
                               (h(context := f (h context)))
                       in (context # raised, h', TaskRaised context # evs))
                  | Awaits f u k \<Rightarrow>
                      (let (raised, h', evs) =
                             resume_tasks (tl sched) (pool[i := (context, u, k)]) False
                               (h(context := f (h context)))
                       in (raised, h', TaskSuspended context # evs)))))"
  by pat_completeness auto

termination resume_tasks
proof -
  let ?m = "\<lambda>pool :: suspended list. sum_list (map (\<lambda>t. segments (snd (snd t))) pool)"
  have pos: "0 < segments k" for k
    by (cases k) simp_all
  have pick: "choice sched (length pool) < length pool" if "pool \<noteq> []"
    for sched and pool :: "suspended list"
    using that by (simp add: choice_def split: list.splits)
  have split: "?m pool = ?m (remove_nth i pool) + segments (snd (snd (pool ! i)))"
    if "i < length pool" for i pool
  proof -
    have "?m pool = ?m (take i pool @ pool ! i # drop (Suc i) pool)"
      using id_take_nth_drop[OF that] by simp
    then show ?thesis
      by (simp add: remove_nth_def)
  qed
  have removed: "?m (remove_nth i pool) < ?m pool" if "i < length pool" for i pool
    using split[OF that] pos[of "snd (snd (pool ! i))"] by simp
  have resumed: "?m (pool[i := (r, u, k)]) < ?m pool"
    if "i < length pool" and "snd (snd (pool ! i)) = Awaits f u k" for i pool r f u k
  proof -
    have "?m (pool[i := (r, u, k)]) = ?m (remove_nth i pool) + segments k"
      using that(1) by (simp add: upd_conv_take_nth_drop remove_nth_def)
    with split[OF that(1)] that(2) show ?thesis by simp
  qed
  show ?thesis
    by (relation "measure (\<lambda>(sched, pool, cancelled, h). ?m pool)")
       (auto simp: pick removed resumed)
qed

declare resume_tasks.simps [simp del]

text \<open>
  The task group has ended when every task has returned, raised or been cancelled. It
  raises if a task raised, with the exceptions of all the tasks that did.
\<close>

definition run_tasks ::
  "'a work \<Rightarrow> 'a list \<Rightarrow> nat list \<Rightarrow> (ref \<times> Semaphore) list \<Rightarrow> heap
     \<Rightarrow> (error + unit) \<times> heap \<times> 'a event list" where
  "run_tasks connector_pipeline args sched tasks h =
     (case enter_tasks connector_pipeline args tasks h of
        (pool, raised1, h1, evs1) \<Rightarrow>
          (case resume_tasks sched pool (raised1 \<noteq> []) h1 of
             (raised2, h2, evs2) \<Rightarrow>
               (if raised1 @ raised2 = [] then Inr () else Inl (TaskGroupError (raised1 @ raised2)),
                h2, evs1 @ evs2)))"

text \<open>
  \<^verbatim>\<open>run_connectors_pipelines\<close>. Besides the parameters of the source it takes what the
  collaborators do (\<open>env\<close>), the order in which suspended tasks are resumed (\<open>sched\<close>) and
  the heap it starts from. \<^verbatim>\<open>dagger_logs_path\<close> and \<^verbatim>\<open>execute_timeout\<close> only configure the
  Dagger connection and are left out; \<open>concurrency\<close> is a natural number, the capacity of
  the default semaphore. The \<^verbatim>\<open>async with dagger.Connection\<close> block closes the connection
  on every way out, normal or exceptional; \<^verbatim>\<open>dockerd_service.stop()\<close> is an ordinary
  statement after the task group and is reached only when the task group did not raise.
\<close>

definition run_connectors_pipelines ::
  "Env \<Rightarrow> nat list \<Rightarrow> ref list \<Rightarrow> 'a work \<Rightarrow> string \<Rightarrow> nat \<Rightarrow> 'a list \<Rightarrow> heap
     \<Rightarrow> (error + ref list) \<times> heap \<times> 'a event list" where
  "run_connectors_pipelines env sched contexts connector_pipeline pname concurrency args h =
     (let default_connectors_semaphore = Semaphore DEFAULT concurrency
      in case contexts of
           [] \<Rightarrow> (Inl IndexError, h, [ConnectionOpened, ConnectionClosed])
         | first # _ \<Rightarrow>
             (let username = docker_hub_username (h first);
                  password = docker_hub_password (h first);
                  (svc, evs0) =
                    (if truthy username \<and> truthy password
                     then (let username_secret = Secret ''DOCKER_HUB_USERNAME'' (the username);
                               password_secret = Secret ''DOCKER_HUB_PASSWORD'' (the password);
                               svc = DockerdService (Some (username_secret, password_secret))
                           in (svc, [SetSecret ''DOCKER_HUB_USERNAME'' (the username),
                                     SetSecret ''DOCKER_HUB_PASSWORD'' (the password),
                                     WithGlobalDockerdService svc]))
                     else (DockerdService None, [WithGlobalDockerdService (DockerdService None)]));
                  evs1 = ConnectionOpened # evs0 @ [DockerdStartCalled]
              in if start_raises env then (Inl ServiceError, h, evs1 @ [ConnectionClosed])
                 else
                   (let (tasks, h1, evs2) =
                          start_tasks pname svc default_connectors_semaphore args contexts h;
                        (joined, h2, evs3) =
                          run_tasks connector_pipeline args sched tasks h1;
                        evs4 = evs1 @ [DockerdStarted] @ evs2 @ evs3 @ [TaskGroupJoined]
                    in case joined of
                         Inl e \<Rightarrow> (Inl e, h2, evs4 @ [ConnectionClosed])
                       | Inr _ \<Rightarrow>
                           if stop_raises env
                           then (Inl ServiceError, h2, evs4 @ [DockerdStopCalled, ConnectionClosed])
                           else
                             (case run_report_complete_pipeline contexts h2 of
                                (Inl e, h3, evs5) \<Rightarrow>
                                  (Inl e, h3,
                                   evs4 @ [DockerdStopCalled, DockerdStopped] @ evs5
                                     @ [ConnectionClosed])
                              | (Inr _, h3, evs5) \<Rightarrow>
                                  (Inr contexts, h3,
                                   evs4 @ [DockerdStopCalled, DockerdStopped] @ evs5
                                     @ [ConnectionClosed])))))"


section \<open>Notions used to state the properties\<close>

text \<open>
  The gate of a class key, in the words of the spec: the dedicated gate if one is registered
  for the class key, otherwise the default gate. It is compared below with the lookup
  \<^verbatim>\<open>CONNECTOR_LANGUAGE_TO_FORCED_CONCURRENCY_MAPPING.get(language, default)\<close> of the code.
\<close>

definition gate_for :: "Semaphore \<Rightarrow> ConnectorLanguage \<Rightarrow> Semaphore" where
  "gate_for default_gate class_key =
     (case CONNECTOR_LANGUAGE_TO_FORCED_CONCURRENCY_MAPPING class_key of
        Some dedicated \<Rightarrow> dedicated
      | None \<Rightarrow> default_gate)"

text \<open>
  What the loop of the task group leaves in a context, the tasks it launches and the events
  it causes, in closed form.
\<close>

definition with_client_and_service :: "string \<Rightarrow> DockerdService \<Rightarrow> ConnectorContext \<Rightarrow> ConnectorContext" where
  "with_client_and_service pname svc c =
     c\<lparr>dagger_client := Some (Pipeline (pname @ '' - '' @ technical_name (connector c))),
       dockerd_service := Some svc\<rparr>"

definition launched :: "Semaphore \<Rightarrow> heap \<Rightarrow> ref list \<Rightarrow> (ref \<times> Semaphore) list" where
  "launched d h contexts = map (\<lambda>r. (r, gate_for d (language (connector (h r))))) contexts"

definition prepared :: "string \<Rightarrow> DockerdService \<Rightarrow> ref list \<Rightarrow> heap \<Rightarrow> heap" where
  "prepared pname svc contexts h =
     (\<lambda>r. if r \<in> set contexts then with_client_and_service pname svc (h r) else h r)"

definition launch_events :: "Semaphore \<Rightarrow> 'a list \<Rightarrow> heap \<Rightarrow> ref list \<Rightarrow> 'a event list" where
  "launch_events d args h contexts =
     map (\<lambda>r. TaskLaunched r (gate_for d (language (connector (h r)))) args) contexts"

text \<open>Kinds of events, and the tasks that raised, read off a sequence of events.\<close>

fun is_running_event :: "'a event \<Rightarrow> bool" where
  "is_running_event (TaskInvoked r g a) = True"
| "is_running_event (TaskSuspended r) = True"
| "is_running_event (TaskReturned r) = True"
| "is_running_event (TaskRaised r) = True"
| "is_running_event (TaskCancelled r) = True"
| "is_running_event e = False"

fun is_TaskRaised :: "'a event \<Rightarrow> bool" where
  "is_TaskRaised (TaskRaised r) = True"
| "is_TaskRaised e = False"

fun is_task_event :: "'a event \<Rightarrow> bool" where
  "is_task_event (TaskLaunched r g a) = True"
| "is_task_event (TaskInvoked r g a) = True"
| "is_task_event (TaskSuspended r) = True"
| "is_task_event (TaskReturned r) = True"
| "is_task_event (TaskRaised r) = True"
| "is_task_event (TaskCancelled r) = True"
| "is_task_event e = False"


fun is_TaskInvoked :: "'a event \<Rightarrow> bool" where
  "is_TaskInvoked (TaskInvoked r g a) = True"
| "is_TaskInvoked e = False"

fun is_service_setup :: "'a event \<Rightarrow> bool" where
  "is_service_setup (SetSecret k v) = True"
| "is_service_setup (WithGlobalDockerdService svc) = True"
| "is_service_setup e = False"

fun is_report_event :: "'a event \<Rightarrow> bool" where
  "is_report_event (ReportCreated rep) = True"
| "is_report_event (ReportSaved rep) = True"
| "is_report_event e = False"

definition is_setup_event :: "'a event \<Rightarrow> bool" where
  "is_setup_event e = (e = ConnectionOpened \<or> e = DockerdStartCalled \<or> is_service_setup e)"

fun raised_refs :: "'a event list \<Rightarrow> ref list" where
  "raised_refs [] = []"
| "raised_refs (TaskRaised r # evs) = r # raised_refs evs"
| "raised_refs (e # evs) = raised_refs evs"

text \<open>
  The service built from the credentials of one context, and the events of building it:
  lines 100 to 108 of the source, read off a context value.
\<close>

definition global_dockerd :: "ConnectorContext \<Rightarrow> DockerdService" where
  "global_dockerd c =
     (if truthy (docker_hub_username c) \<and> truthy (docker_hub_password c)
      then DockerdService (Some (Secret ''DOCKER_HUB_USERNAME'' (the (docker_hub_username c)),
                                 Secret ''DOCKER_HUB_PASSWORD'' (the (docker_hub_password c))))
      else DockerdService None)"

definition credential_events :: "ConnectorContext \<Rightarrow> 'a event list" where
  "credential_events c =
     (if truthy (docker_hub_username c) \<and> truthy (docker_hub_password c)
      then [SetSecret ''DOCKER_HUB_USERNAME'' (the (docker_hub_username c)),
            SetSecret ''DOCKER_HUB_PASSWORD'' (the (docker_hub_password c)),
            WithGlobalDockerdService (global_dockerd c)]
      else [WithGlobalDockerdService (global_dockerd c)])"

definition prologue :: "ConnectorContext \<Rightarrow> 'a event list" where
  "prologue c = ConnectionOpened # credential_events c @ [DockerdStartCalled]"

text \<open>
  The part of a run after \<^verbatim>\<open>dockerd_service.start()\<close> has returned, and the events of a
  run up to the end of the task group.
\<close>

definition after_start ::
  "Env \<Rightarrow> nat list \<Rightarrow> ref list \<Rightarrow> 'a work \<Rightarrow> string \<Rightarrow> nat \<Rightarrow> 'a list \<Rightarrow> heap
     \<Rightarrow> DockerdService \<Rightarrow> 'a event list \<Rightarrow> (error + ref list) \<times> heap \<times> 'a event list" where
  "after_start env sched contexts w pname n args h svc evs1 =
     (case run_tasks w args sched (launched (Semaphore DEFAULT n) h contexts)
             (prepared pname svc contexts h) of
        (joined, h2, evs3) \<Rightarrow>
          (let evs4 = evs1 @ [DockerdStarted]
                 @ launch_events (Semaphore DEFAULT n) args h contexts @ evs3 @ [TaskGroupJoined]
           in case joined of
                Inl e \<Rightarrow> (Inl e, h2, evs4 @ [ConnectionClosed])
              | Inr _ \<Rightarrow>
                  if stop_raises env
                  then (Inl ServiceError, h2, evs4 @ [DockerdStopCalled, ConnectionClosed])
                  else (case run_report_complete_pipeline contexts h2 of
                          (res, h3, evs5) \<Rightarrow>
                            (case res of Inl e \<Rightarrow> Inl e | Inr _ \<Rightarrow> Inr contexts, h3,
                             evs4 @ [DockerdStopCalled, DockerdStopped] @ evs5
                               @ [ConnectionClosed]))))"

definition fan_out_events ::
  "nat \<Rightarrow> 'a list \<Rightarrow> heap \<Rightarrow> ref list \<Rightarrow> 'a event list \<Rightarrow> 'a event list" where
  "fan_out_events n args h contexts evs3 =
     prologue (h (hd contexts)) @ [DockerdStarted]
       @ launch_events (Semaphore DEFAULT n) args h contexts @ evs3 @ [TaskGroupJoined]"

text \<open>The three components of what a run returns.\<close>

definition outcome :: "'r \<times> heap \<times> 'a event list \<Rightarrow> 'r" where
  "outcome out = fst out"

definition final_heap :: "'r \<times> heap \<times> 'a event list \<Rightarrow> heap" where
  "final_heap out = fst (snd out)"

definition trace :: "'r \<times> heap \<times> 'a event list \<Rightarrow> 'a event list" where
  "trace out = snd (snd out)"

text \<open>
  The states the classifier accepts, and the heap after
  \<^verbatim>\<open>first_connector_context.pipeline_name = pipeline_name\<close>.
\<close>

definition recognized :: "ContextState \<Rightarrow> bool" where
  "recognized st = (st = SUCCESSFUL \<or> st = FAILURE \<or> st = ERROR)"

definition renamed :: "ref list \<Rightarrow> heap \<Rightarrow> heap" where
  "renamed contexts h =
     h(hd contexts := (h (hd contexts))
         \<lparr>pipeline_name := ''Report upload '' @ report_output_prefix (h (hd contexts))\<rparr>)"

text \<open>
  A coroutine preserves a view of contexts when none of its segments changes it, whether
  the segment runs or unwinds; likewise a suspended task. A coroutine writes only the
  terminal state when it preserves the context with the state blanked out: this is what
  the spec asks of the caller's work function.
\<close>

fun preserves :: "(ConnectorContext \<Rightarrow> 'b) \<Rightarrow> coroutine \<Rightarrow> bool" where
  "preserves proj (Returns f) = (\<forall>c. proj (f c) = proj c)"
| "preserves proj (Raises f) = (\<forall>c. proj (f c) = proj c)"
| "preserves proj (Awaits f u k) =
     ((\<forall>c. proj (f c) = proj c) \<and> (\<forall>c. proj (u c) = proj c) \<and> preserves proj k)"

definition suspended_preserves :: "(ConnectorContext \<Rightarrow> 'b) \<Rightarrow> suspended \<Rightarrow> bool" where
  "suspended_preserves proj t =
     ((\<forall>c. proj (fst (snd t) c) = proj c) \<and> preserves proj (snd (snd t)))"


text \<open>
  Three connectors, a Java one at reference 0, a low-code one at reference 4 and Python ones
  elsewhere, all pending and with Docker Hub credentials. One work function awaits once and
  then marks its context successful; cancelled at the await, it marks its context as in
  error. The other raises at once for a Java connector, returns without awaiting for a
  low-code connector and does as the first for the others. The first run has two contexts,
  and its second task is resumed first; in the second run, on three contexts, the first
  task raises.
\<close>

definition example_context :: "string \<Rightarrow> ConnectorLanguage \<Rightarrow> ConnectorContext" where
  "example_context n l =
     \<lparr>state = PENDING, connector = \<lparr>technical_name = n, language = l\<rparr>,
      docker_hub_username = Some ''user'', docker_hub_password = Some ''secret'',
      report_output_prefix = ''nightly'', pipeline_name = ''test'',
      dagger_client = None, dockerd_service = None\<rparr>"

definition example_heap :: heap where
  "example_heap r =
     (if r = 0 then example_context ''source-postgres'' JAVA
      else if r = 4 then example_context ''source-pokeapi'' LOW_CODE
      else example_context ''source-faker'' PYTHON)"

definition example_env :: Env where
  "example_env = \<lparr>start_raises = False, stop_raises = False\<rparr>"

definition succeeding_pipeline :: "string work" where
  "succeeding_pipeline c g a =
     Awaits (\<lambda>c. c) (\<lambda>c. c\<lparr>state := ERROR\<rparr>) (Returns (\<lambda>c. c\<lparr>state := SUCCESSFUL\<rparr>))"

definition failing_pipeline :: "string work" where
  "failing_pipeline c g a =
     (if language (connector c) = JAVA then Raises (\<lambda>c. c)
      else if language (connector c) = LOW_CODE then Returns (\<lambda>c. c\<lparr>state := SUCCESSFUL\<rparr>)
      else Awaits (\<lambda>c. c) (\<lambda>c. c\<lparr>state := ERROR\<rparr>)
             (Returns (\<lambda>c. c\<lparr>state := SUCCESSFUL\<rparr>)))"

definition example_run :: "(error + ref list) \<times> heap \<times> string event list" where
  "example_run =
     run_connectors_pipelines example_env [1, 0] [0, 2] succeeding_pipeline ''test'' 2
       [''--fast''] example_heap"

definition example_failing_run :: "(error + ref list) \<times> heap \<times> string event list" where
  "example_failing_run =
     run_connectors_pipelines example_env [] [0, 2, 4] failing_pipeline ''test'' 2
       [''--fast''] example_heap"

section \<open>The loop of the task group\<close>

lemma connector_with_client_and_service [simp]:
  "connector (with_client_and_service pname svc c) = connector c"
  by (simp add: with_client_and_service_def)

lemma with_client_and_service_idem [simp]:
  "with_client_and_service pname svc (with_client_and_service pname svc c) =
     with_client_and_service pname svc c"
  by (simp add: with_client_and_service_def)

lemma start_tasks_result:
  "start_tasks pname svc d args contexts h =
     (map (\<lambda>r. (r, gate_for d (language (connector (h r))))) contexts,
      (\<lambda>r. if r \<in> set contexts then with_client_and_service pname svc (h r) else h r),
      map (\<lambda>r. TaskLaunched r (gate_for d (language (connector (h r)))) args) contexts)"
proof (induction contexts arbitrary: h)
  case Nil
  show ?case by simp
next
  case (Cons c cs)
  let ?h2 = "h(c := with_client_and_service pname svc (h c))"
  have step: "start_tasks pname svc d args (c # cs) h =
      (let (tasks, h3, evs) = start_tasks pname svc d args cs ?h2
       in ((c, gate_for d (language (connector (h c)))) # tasks, h3,
           TaskLaunched c (gate_for d (language (connector (h c)))) args # evs))"
    by (simp add: Let_def with_client_and_service_def gate_for_def)
  show ?case
    unfolding step Cons.IH
    by (auto simp: fun_eq_iff)
qed



section \<open>Running the tasks\<close>

lemma raised_refs_append: "raised_refs (xs @ ys) = raised_refs xs @ raised_refs ys"
  by (induction xs rule: raised_refs.induct) simp_all

lemma raised_refs_Nil_iff: "(raised_refs evs = []) = (\<not> list_ex is_TaskRaised evs)"
  by (induction evs rule: raised_refs.induct) simp_all

lemma set_remove_nth: "set (remove_nth i xs) \<subseteq> set xs"
  by (auto simp: remove_nth_def dest: in_set_takeD in_set_dropD)

lemma choice_less: "xs \<noteq> [] \<Longrightarrow> choice sched (length xs) < length xs"
  by (simp add: choice_def split: list.splits)

lemma resume_tasks_props:
  fixes proj :: "ConnectorContext \<Rightarrow> 'b"
  assumes "resume_tasks sched pool cancelled h = (raised, h', (evs :: 'a event list))"
  shows "list_all is_running_event evs \<and> raised = raised_refs evs \<and>
         filter is_TaskInvoked evs = [] \<and>
         ((\<forall>t \<in> set pool. suspended_preserves proj t) \<longrightarrow> proj (h' x) = proj (h x))"
  using assms
proof (induction sched pool cancelled h arbitrary: raised h' evs rule: resume_tasks.induct)
  case (1 sched pool cancelled h)
  show ?case
  proof (cases "pool = []")
    case True
    with "1.prems" show ?thesis
      by (simp add: resume_tasks.simps)
  next
    case ne: False
    define i where "i = choice sched (length pool)"
    define r where "r = fst (pool ! i)"
    have lt: "i < length pool"
      using ne by (simp add: i_def choice_less)
    then have mem: "pool ! i \<in> set pool" by simp
    note sub = set_remove_nth[of i pool]
    note unfold = resume_tasks.simps[of sched pool]
    have here: "suspended_preserves proj (pool ! i)"
      if "\<forall>t \<in> set pool. suspended_preserves proj t"
      using that mem by blast
    have rest: "\<forall>t \<in> set (remove_nth i pool). suspended_preserves proj t"
      if "\<forall>t \<in> set pool. suspended_preserves proj t"
      using that sub by blast
    show ?thesis
    proof (cases cancelled)
      case True
      define u where "u = fst (snd (pool ! i))"
      obtain raised1 h1 and evs1 :: "'a event list" where
        rec: "resume_tasks (tl sched) (remove_nth i pool) True (h(r := u (h r)))
                = (raised1, h1, evs1)"
        by (cases "resume_tasks (tl sched) (remove_nth i pool) True (h(r := u (h r)))
                     :: _ \<times> _ \<times> 'a event list")
      from "1.prems" have eq: "raised = raised1" "h' = h1" "evs = TaskCancelled r # evs1"
        by (simp_all add: unfold ne True i_def[symmetric] r_def[symmetric] u_def[symmetric]
              rec Let_def)
      have "proj (fst (snd (pool ! i)) c) = proj c"
        if "\<forall>t \<in> set pool. suspended_preserves proj t" for c
        using here[OF that] by (simp add: suspended_preserves_def)
      with "1.IH"(1)[OF ne i_def r_def True rec[unfolded u_def]] rest show ?thesis
        by (auto simp: eq)
    next
      case nc: False
      show ?thesis
      proof (cases "snd (snd (pool ! i))")
        case (Returns f)
        obtain raised1 h1 and evs1 :: "'a event list" where
          rec: "resume_tasks (tl sched) (remove_nth i pool) False (h(r := f (h r)))
                  = (raised1, h1, evs1)"
          by (cases "resume_tasks (tl sched) (remove_nth i pool) False (h(r := f (h r)))
                       :: _ \<times> _ \<times> 'a event list")
        from "1.prems" have eq: "raised = raised1" "h' = h1" "evs = TaskReturned r # evs1"
          by (simp_all add: unfold ne nc i_def[symmetric] r_def[symmetric] Returns rec Let_def)
        have "proj (f c) = proj c" if "\<forall>t \<in> set pool. suspended_preserves proj t" for c
          using here[OF that] Returns by (simp add: suspended_preserves_def)
        with "1.IH"(2)[OF ne i_def r_def nc Returns rec] rest show ?thesis
          by (auto simp: eq)
      next
        case (Raises f)
        obtain raised1 h1 and evs1 :: "'a event list" where
          rec: "resume_tasks (tl sched) (remove_nth i pool) True (h(r := f (h r)))
                  = (raised1, h1, evs1)"
          by (cases "resume_tasks (tl sched) (remove_nth i pool) True (h(r := f (h r)))
                       :: _ \<times> _ \<times> 'a event list")
        from "1.prems" have eq: "raised = r # raised1" "h' = h1" "evs = TaskRaised r # evs1"
          by (simp_all add: unfold ne nc i_def[symmetric] r_def[symmetric] Raises rec Let_def)
        have "proj (f c) = proj c" if "\<forall>t \<in> set pool. suspended_preserves proj t" for c
          using here[OF that] Raises by (simp add: suspended_preserves_def)
        with "1.IH"(3)[OF ne i_def r_def nc Raises rec] rest show ?thesis
          by (auto simp: eq)
      next
        case (Awaits f u k)
        obtain raised1 h1 and evs1 :: "'a event list" where
          rec: "resume_tasks (tl sched) (pool[i := (r, u, k)]) False (h(r := f (h r)))
                  = (raised1, h1, evs1)"
          by (cases "resume_tasks (tl sched) (pool[i := (r, u, k)]) False (h(r := f (h r)))
                       :: _ \<times> _ \<times> 'a event list")
        from "1.prems" have eq: "raised = raised1" "h' = h1" "evs = TaskSuspended r # evs1"
          by (simp_all add: unfold ne nc i_def[symmetric] r_def[symmetric] Awaits rec Let_def)
        have pk: "(\<forall>c. proj (f c) = proj c) \<and> suspended_preserves proj (r, u, k)"
          if "\<forall>t \<in> set pool. suspended_preserves proj t"
          using here[OF that] Awaits by (simp add: suspended_preserves_def)
        have "\<forall>t \<in> set (pool[i := (r, u, k)]). suspended_preserves proj t"
          if "\<forall>t \<in> set pool. suspended_preserves proj t"
          using that pk[OF that] set_update_subset_insert[of pool i "(r, u, k)"] by blast
        with pk "1.IH"(4)[OF ne i_def r_def nc Awaits rec] show ?thesis
          by (auto simp: eq)
      qed
    qed
  qed
qed

lemma enter_tasks_props:
  fixes proj :: "ConnectorContext \<Rightarrow> 'b"
  assumes "enter_tasks w args tasks h = (pool, raised, h', (evs :: 'a event list))"
  shows "list_all is_running_event evs \<and> raised = raised_refs evs \<and>
         filter is_TaskInvoked evs = map (\<lambda>t. TaskInvoked (fst t) (snd t) args) tasks \<and>
         ((\<forall>c g. preserves proj (w c g args)) \<longrightarrow>
            proj (h' x) = proj (h x) \<and> (\<forall>t \<in> set pool. suspended_preserves proj t))"
  using assms
proof (induction tasks arbitrary: h pool raised h' evs)
  case Nil
  then show ?case by simp
next
  case (Cons t tasks)
  obtain r g where t: "t = (r, g)" by (cases t)
  define f where
    "f = (case w (h r) g args of Returns f \<Rightarrow> f | Raises f \<Rightarrow> f | Awaits f u k \<Rightarrow> f)"
  obtain pool1 raised1 h1 and evs1 :: "'a event list" where
    rec: "enter_tasks w args tasks (h(r := f (h r))) = (pool1, raised1, h1, evs1)"
    by (cases "enter_tasks w args tasks (h(r := f (h r))) :: _ \<times> _ \<times> _ \<times> 'a event list")
  note IH = Cons.IH[OF rec]
  show ?case
  proof (cases "w (h r) g args")
    case (Returns f')
    then have ff: "f' = f" by (simp add: f_def)
    from Cons.prems have eq: "pool = pool1" "raised = raised1" "h' = h1"
      "evs = TaskInvoked r g args # TaskReturned r # evs1"
      by (simp_all add: t Returns ff rec)
    have "proj (f c) = proj c" if "\<forall>c g. preserves proj (w c g args)" for c
      using that Returns ff by (metis preserves.simps(1))
    with IH show ?thesis
      by (auto simp: eq t)
  next
    case (Raises f')
    then have ff: "f' = f" by (simp add: f_def)
    from Cons.prems have eq: "pool = pool1" "raised = r # raised1" "h' = h1"
      "evs = TaskInvoked r g args # TaskRaised r # evs1"
      by (simp_all add: t Raises ff rec)
    have "proj (f c) = proj c" if "\<forall>c g. preserves proj (w c g args)" for c
      using that Raises ff by (metis preserves.simps(2))
    with IH show ?thesis
      by (auto simp: eq t)
  next
    case (Awaits f' u k)
    then have ff: "f' = f" by (simp add: f_def)
    from Cons.prems have eq: "pool = (r, u, k) # pool1" "raised = raised1" "h' = h1"
      "evs = TaskInvoked r g args # TaskSuspended r # evs1"
      by (simp_all add: t Awaits ff rec)
    have "(\<forall>c. proj (f c) = proj c) \<and> suspended_preserves proj (r, u, k)"
      if "\<forall>c g. preserves proj (w c g args)"
      using that Awaits ff unfolding suspended_preserves_def
      by (metis preserves.simps(3) fst_conv snd_conv)
    with IH show ?thesis
      by (auto simp: eq t)
  qed
qed

lemma resume_tasks_untouched:
  assumes "resume_tasks sched pool cancelled h = (raised, h', (evs :: 'a event list))"
    and "x \<notin> fst ` set pool"
  shows "h' x = h x"
  using assms
proof (induction sched pool cancelled h arbitrary: raised h' evs rule: resume_tasks.induct)
  case (1 sched pool cancelled h)
  show ?case
  proof (cases "pool = []")
    case True
    with "1.prems" show ?thesis
      by (simp add: resume_tasks.simps)
  next
    case ne: False
    define i where "i = choice sched (length pool)"
    define r where "r = fst (pool ! i)"
    have lt: "i < length pool"
      using ne by (simp add: i_def choice_less)
    then have "pool ! i \<in> set pool" by simp
    then have "r \<in> fst ` set pool" unfolding r_def by (rule imageI)
    with "1.prems"(2) have xr: "x \<noteq> r" by blast
    have rem: "x \<notin> fst ` set (remove_nth i pool)"
      using "1.prems"(2) set_remove_nth[of i pool] by blast
    have upd: "x \<notin> fst ` set (pool[i := (r, u, k)])" for u k
    proof
      assume "x \<in> fst ` set (pool[i := (r, u, k)])"
      then obtain t where t: "t \<in> set (pool[i := (r, u, k)])" and x: "x = fst t" by blast
      from t set_update_subset_insert[of pool i "(r, u, k)"]
      have "t = (r, u, k) \<or> t \<in> set pool" by blast
      then show False
      proof
        assume "t = (r, u, k)"
        with x xr show False by simp
      next
        assume "t \<in> set pool"
        then have "fst t \<in> fst ` set pool" by (rule imageI)
        with x "1.prems"(2) show False by simp
      qed
    qed
    note unfold = resume_tasks.simps[of sched pool]
    show ?thesis
    proof (cases cancelled)
      case True
      define u where "u = fst (snd (pool ! i))"
      obtain raised1 h1 and evs1 :: "'a event list" where
        rec: "resume_tasks (tl sched) (remove_nth i pool) True (h(r := u (h r)))
                = (raised1, h1, evs1)"
        by (cases "resume_tasks (tl sched) (remove_nth i pool) True (h(r := u (h r)))
                     :: _ \<times> _ \<times> 'a event list")
      from "1.prems"(1) have eq: "h' = h1"
        by (simp add: unfold ne True i_def[symmetric] r_def[symmetric] u_def[symmetric]
              rec Let_def)
      from "1.IH"(1)[OF ne i_def r_def True rec[unfolded u_def] rem] xr show ?thesis
        by (simp add: eq)
    next
      case nc: False
      show ?thesis
      proof (cases "snd (snd (pool ! i))")
        case (Returns f)
        obtain raised1 h1 and evs1 :: "'a event list" where
          rec: "resume_tasks (tl sched) (remove_nth i pool) False (h(r := f (h r)))
                  = (raised1, h1, evs1)"
          by (cases "resume_tasks (tl sched) (remove_nth i pool) False (h(r := f (h r)))
                       :: _ \<times> _ \<times> 'a event list")
        from "1.prems"(1) have eq: "h' = h1"
          by (simp add: unfold ne nc i_def[symmetric] r_def[symmetric] Returns rec Let_def)
        from "1.IH"(2)[OF ne i_def r_def nc Returns rec rem] xr show ?thesis
          by (simp add: eq)
      next
        case (Raises f)
        obtain raised1 h1 and evs1 :: "'a event list" where
          rec: "resume_tasks (tl sched) (remove_nth i pool) True (h(r := f (h r)))
                  = (raised1, h1, evs1)"
          by (cases "resume_tasks (tl sched) (remove_nth i pool) True (h(r := f (h r)))
                       :: _ \<times> _ \<times> 'a event list")
        from "1.prems"(1) have eq: "h' = h1"
          by (simp add: unfold ne nc i_def[symmetric] r_def[symmetric] Raises rec Let_def)
        from "1.IH"(3)[OF ne i_def r_def nc Raises rec rem] xr show ?thesis
          by (simp add: eq)
      next
        case (Awaits f u k)
        obtain raised1 h1 and evs1 :: "'a event list" where
          rec: "resume_tasks (tl sched) (pool[i := (r, u, k)]) False (h(r := f (h r)))
                  = (raised1, h1, evs1)"
          by (cases "resume_tasks (tl sched) (pool[i := (r, u, k)]) False (h(r := f (h r)))
                       :: _ \<times> _ \<times> 'a event list")
        from "1.prems"(1) have eq: "h' = h1"
          by (simp add: unfold ne nc i_def[symmetric] r_def[symmetric] Awaits rec Let_def)
        from "1.IH"(4)[OF ne i_def r_def nc Awaits rec upd] xr show ?thesis
          by (simp add: eq)
      qed
    qed
  qed
qed

lemma enter_tasks_untouched:
  assumes "enter_tasks w args tasks h = (pool, raised, h', (evs :: 'a event list))"
  shows "fst ` set pool \<subseteq> fst ` set tasks \<and> (x \<notin> fst ` set tasks \<longrightarrow> h' x = h x)"
  using assms
proof (induction tasks arbitrary: h pool raised h' evs)
  case Nil
  then show ?case by simp
next
  case (Cons t tasks)
  obtain r g where t: "t = (r, g)" by (cases t)
  define f where
    "f = (case w (h r) g args of Returns f \<Rightarrow> f | Raises f \<Rightarrow> f | Awaits f u k \<Rightarrow> f)"
  obtain pool1 raised1 h1 and evs1 :: "'a event list" where
    rec: "enter_tasks w args tasks (h(r := f (h r))) = (pool1, raised1, h1, evs1)"
    by (cases "enter_tasks w args tasks (h(r := f (h r))) :: _ \<times> _ \<times> _ \<times> 'a event list")
  note IH = Cons.IH[OF rec]
  have eq: "h' = h1 \<and> (pool = pool1 \<or> (\<exists>u k. pool = (r, u, k) # pool1))"
  proof (cases "w (h r) g args")
    case (Returns f')
    then have "f' = f" by (simp add: f_def)
    with Cons.prems Returns show ?thesis by (simp add: t rec)
  next
    case (Raises f')
    then have "f' = f" by (simp add: f_def)
    with Cons.prems Raises show ?thesis by (simp add: t rec)
  next
    case (Awaits f' u k)
    then have "f' = f" by (simp add: f_def)
    with Cons.prems Awaits show ?thesis by (auto simp: t rec)
  qed
  have ts: "fst ` set (t # tasks) = insert r (fst ` set tasks)"
    by (simp add: t)
  have ps: "fst ` set pool \<subseteq> insert r (fst ` set pool1)"
    using eq by auto
  from IH have sub1: "fst ` set pool1 \<subseteq> fst ` set tasks" by blast
  have "fst ` set pool \<subseteq> fst ` set (t # tasks)"
    unfolding ts using ps sub1 by blast
  moreover have "h' x = h x" if "x \<notin> fst ` set (t # tasks)"
  proof -
    from that have "x \<noteq> r" and "x \<notin> fst ` set tasks"
      unfolding ts by blast+
    with IH eq show ?thesis by simp
  qed
  ultimately show ?case by blast
qed

lemma run_tasks_props:
  fixes proj :: "ConnectorContext \<Rightarrow> 'b"
  assumes "run_tasks w args sched tasks h = (res, h', (evs :: 'a event list))"
  shows "list_all is_running_event evs \<and>
         res = (if raised_refs evs = [] then Inr () else Inl (TaskGroupError (raised_refs evs))) \<and>
         filter is_TaskInvoked evs = map (\<lambda>t. TaskInvoked (fst t) (snd t) args) tasks \<and>
         ((\<forall>c g. preserves proj (w c g args)) \<longrightarrow> proj (h' x) = proj (h x)) \<and>
         (x \<notin> fst ` set tasks \<longrightarrow> h' x = h x)"
proof -
  obtain pool raised1 h1 and evs1 :: "'a event list" where
    en: "enter_tasks w args tasks h = (pool, raised1, h1, evs1)"
    by (cases "enter_tasks w args tasks h :: _ \<times> _ \<times> _ \<times> 'a event list")
  obtain raised2 h2 and evs2 :: "'a event list" where
    re: "resume_tasks sched pool (raised1 \<noteq> []) h1 = (raised2, h2, evs2)"
    by (cases "resume_tasks sched pool (raised1 \<noteq> []) h1 :: _ \<times> _ \<times> 'a event list")
  from assms have eq: "h' = h2" "evs = evs1 @ evs2"
    "res = (if raised1 @ raised2 = [] then Inr () else Inl (TaskGroupError (raised1 @ raised2)))"
    by (simp_all add: run_tasks_def en re)
  have "h2 x = h x" if "x \<notin> fst ` set tasks"
    using enter_tasks_untouched[OF en, of x] resume_tasks_untouched[OF re, of x] that
    by auto
  with enter_tasks_props[OF en, of proj x] resume_tasks_props[OF re, of proj x]
  show ?thesis
    by (auto simp: eq raised_refs_append)
qed

lemma run_tasks_events_running:
  "run_tasks w args sched tasks h = (res, h', evs) \<Longrightarrow> list_all is_running_event evs"
  using run_tasks_props[of w args sched tasks h res h' evs "\<lambda>c. c"] by simp

lemma run_tasks_error:
  "run_tasks w args sched tasks h = (res, h', evs) \<Longrightarrow>
     res = (if raised_refs evs = [] then Inr () else Inl (TaskGroupError (raised_refs evs)))"
  using run_tasks_props[of w args sched tasks h res h' evs "\<lambda>c. c"] by simp

lemma run_tasks_raised_iff:
  "run_tasks w args sched tasks h = (res, h', evs) \<Longrightarrow>
     (res = Inr ()) = (\<not> list_ex is_TaskRaised evs)"
  using run_tasks_error[of w args sched tasks h res h' evs]
  by (auto simp: raised_refs_Nil_iff)





section \<open>Classification and the report\<close>

lemma classify_all_Inr:
  "classify_all h cs = Inr rs \<Longrightarrow> map Inr rs = map (context_to_step_result h) cs"
  by (induction cs arbitrary: rs) (auto split: sum.splits)

lemma classify_all_Inl:
  "classify_all h cs = Inl e \<Longrightarrow>
     \<exists>c \<in> set cs. \<not> recognized (state (h c)) \<and> e = ValueError (state (h c))"
  by (induction cs)
     (auto simp: context_to_step_result_def recognized_def split: sum.splits if_splits)

lemma classify_all_unrecognized:
  "c \<in> set cs \<Longrightarrow> \<not> recognized (state (h c)) \<Longrightarrow>
     \<exists>st. classify_all h cs = Inl (ValueError st) \<and> \<not> recognized st"
proof (induction cs)
  case Nil
  then show ?case by simp
next
  case (Cons x cs)
  show ?case
  proof (cases "recognized (state (h x))")
    case True
    with Cons.prems have "c \<in> set cs" by auto
    from Cons.IH[OF this Cons.prems(2)] True show ?thesis
      by (auto simp: context_to_step_result_def recognized_def split: sum.splits)
  next
    case False
    then show ?thesis
      by (auto simp: context_to_step_result_def recognized_def)
  qed
qed

lemma classify_all_step_context:
  "classify_all h cs = Inr rs \<Longrightarrow> map step_context rs = cs"
  by (induction cs arbitrary: rs)
     (auto simp: context_to_step_result_def NoOpStep_run_def split: sum.splits if_splits)

lemma state_renamed [simp]: "state (renamed contexts h r) = state (h r)"
  by (simp add: renamed_def)

lemma run_report_complete_pipeline_Cons:
  "contexts \<noteq> [] \<Longrightarrow>
   run_report_complete_pipeline contexts h =
     (case classify_all (renamed contexts h) contexts of
        Inl e \<Rightarrow> (Inl e, renamed contexts h, [])
      | Inr rs \<Rightarrow>
          (Inr (), renamed contexts h,
           [ReportCreated \<lparr>name = ''Report upload '' @ report_output_prefix (h (hd contexts)),
                           pipeline_context = hd contexts, steps_results = rs,
                           filename = ''complete''\<rparr>,
            ReportSaved \<lparr>name = ''Report upload '' @ report_output_prefix (h (hd contexts)),
                         pipeline_context = hd contexts, steps_results = rs,
                         filename = ''complete''\<rparr>]))"
  by (cases contexts)
     (simp_all add: run_report_complete_pipeline_def renamed_def Let_def split: sum.splits)

lemma run_report_complete_pipeline_events:
  "run_report_complete_pipeline contexts h = (res, h', evs) \<Longrightarrow>
     (evs::'a event list) = [] \<or> (\<exists>rep. evs = [ReportCreated rep, ReportSaved rep])"
  by (auto simp: run_report_complete_pipeline_def Let_def split: list.splits sum.splits)

lemma run_report_complete_pipeline_Inl:
  assumes "run_report_complete_pipeline contexts h = (Inl e, h', (evs :: 'a event list))"
  shows "\<exists>c \<in> set contexts. \<not> recognized (state (h' c))"
proof -
  have ne: "contexts \<noteq> []"
    using assms by (auto simp: run_report_complete_pipeline_def)
  from assms have "classify_all (renamed contexts h) contexts = Inl e" and "h' = renamed contexts h"
    by (auto simp: run_report_complete_pipeline_Cons[OF ne] split: sum.splits)
  with classify_all_Inl show ?thesis by blast
qed

lemma run_report_complete_pipeline_Inr:
  assumes "run_report_complete_pipeline contexts h =
             (Inr (), h', [ReportCreated rep, ReportSaved rep :: 'a event])"
  shows "classify_all h' contexts = Inr (steps_results rep)"
proof -
  have ne: "contexts \<noteq> []"
    using assms by (auto simp: run_report_complete_pipeline_def)
  from assms show ?thesis
    by (auto simp: run_report_complete_pipeline_Cons[OF ne] split: sum.splits)
qed


section \<open>The ways through a run\<close>

lemma trace_simps [simp]:
  "outcome (r, h, evs) = r" "final_heap (r, h, evs) = h" "trace (r, h, evs) = evs"
  by (simp_all add: outcome_def final_heap_def trace_def)

lemma run_connectors_pipelines_Cons:
  "run_connectors_pipelines env sched (first # rest) w pname n args h =
     (if start_raises env
      then (Inl ServiceError, h, prologue (h first) @ [ConnectionClosed])
      else after_start env sched (first # rest) w pname n args h
             (global_dockerd (h first)) (prologue (h first)))"
  unfolding run_connectors_pipelines_def after_start_def
  by (cases "truthy (docker_hub_username (h first))";
      cases "truthy (docker_hub_password (h first))")
     (simp_all add: prologue_def credential_events_def global_dockerd_def Let_def
          start_tasks_result launched_def prepared_def launch_events_def
          split: sum.splits prod.splits)

lemma after_start_eq:
  assumes "run_tasks w args sched (launched (Semaphore DEFAULT n) h contexts)
             (prepared pname svc contexts h) = (joined, h2, evs3)"
    and "run_report_complete_pipeline contexts h2 = (res, h3, evs5)"
  shows "after_start env sched contexts w pname n args h svc evs1 =
     (case joined of
        Inl e \<Rightarrow> (Inl e, h2, evs1 @ [DockerdStarted]
                 @ launch_events (Semaphore DEFAULT n) args h contexts @ evs3 @ [TaskGroupJoined] @ [ConnectionClosed])
      | Inr _ \<Rightarrow>
          if stop_raises env
          then (Inl ServiceError, h2, evs1 @ [DockerdStarted]
                 @ launch_events (Semaphore DEFAULT n) args h contexts @ evs3 @ [TaskGroupJoined] @ [DockerdStopCalled, ConnectionClosed])
          else (case res of Inl e \<Rightarrow> Inl e | Inr _ \<Rightarrow> Inr contexts, h3,
                evs1 @ [DockerdStarted]
                 @ launch_events (Semaphore DEFAULT n) args h contexts @ evs3 @ [TaskGroupJoined] @ [DockerdStopCalled, DockerdStopped] @ evs5 @ [ConnectionClosed]))"
  using assms by (simp add: after_start_def Let_def split: sum.splits)

lemma run_connectors_pipelines_cases
  [case_names Empty StartRaises TaskRaises StopRaises ReportRaises Done]:
  fixes w :: "'a work"
  obtains
    (Empty) "contexts = []"
      "run_connectors_pipelines env sched contexts w pname n args h =
         (Inl IndexError, h, [ConnectionOpened, ConnectionClosed])"
  | (StartRaises) "contexts \<noteq> []" "start_raises env"
      "run_connectors_pipelines env sched contexts w pname n args h =
         (Inl ServiceError, h, prologue (h (hd contexts)) @ [ConnectionClosed])"
  | (TaskRaises) e h2 evs3 where "contexts \<noteq> []" "\<not> start_raises env"
      "run_tasks w args sched (launched (Semaphore DEFAULT n) h contexts)
         (prepared pname (global_dockerd (h (hd contexts))) contexts h) = (Inl e, h2, evs3)"
      "run_connectors_pipelines env sched contexts w pname n args h =
         (Inl e, h2, fan_out_events n args h contexts evs3 @ [ConnectionClosed])"
  | (StopRaises) h2 evs3 where "contexts \<noteq> []" "\<not> start_raises env" "stop_raises env"
      "run_tasks w args sched (launched (Semaphore DEFAULT n) h contexts)
         (prepared pname (global_dockerd (h (hd contexts))) contexts h) = (Inr (), h2, evs3)"
      "run_connectors_pipelines env sched contexts w pname n args h =
         (Inl ServiceError, h2,
          fan_out_events n args h contexts evs3 @ [DockerdStopCalled, ConnectionClosed])"
  | (ReportRaises) e h2 evs3 h3 where "contexts \<noteq> []" "\<not> start_raises env"
      "\<not> stop_raises env"
      "run_tasks w args sched (launched (Semaphore DEFAULT n) h contexts)
         (prepared pname (global_dockerd (h (hd contexts))) contexts h) = (Inr (), h2, evs3)"
      "run_report_complete_pipeline contexts h2 = (Inl e, h3, ([]::'a event list))"
      "run_connectors_pipelines env sched contexts w pname n args h =
         (Inl e, h3,
          fan_out_events n args h contexts evs3
            @ [DockerdStopCalled, DockerdStopped, ConnectionClosed])"
  | (Done) h2 evs3 h3 rep where "contexts \<noteq> []" "\<not> start_raises env"
      "\<not> stop_raises env"
      "run_tasks w args sched (launched (Semaphore DEFAULT n) h contexts)
         (prepared pname (global_dockerd (h (hd contexts))) contexts h) = (Inr (), h2, evs3)"
      "run_report_complete_pipeline contexts h2 =
         (Inr (), h3, [ReportCreated rep, ReportSaved rep :: 'a event])"
      "run_connectors_pipelines env sched contexts w pname n args h =
         (Inr contexts, h3,
          fan_out_events n args h contexts evs3
            @ [DockerdStopCalled, DockerdStopped, ReportCreated rep, ReportSaved rep,
               ConnectionClosed])"
proof (cases contexts)
  case Nil
  then show ?thesis
    using Empty by (simp add: run_connectors_pipelines_def)
next
  case (Cons first rest)
  then have ne: "contexts \<noteq> []" and hd: "hd contexts = first" by simp_all
  show ?thesis
  proof (cases "start_raises env")
    case True
    then show ?thesis
      using StartRaises[OF ne] by (simp add: run_connectors_pipelines_Cons Cons)
  next
    case False
    obtain joined h2 evs3 where rt:
      "run_tasks w args sched (launched (Semaphore DEFAULT n) h contexts)
         (prepared pname (global_dockerd (h (hd contexts))) contexts h) = (joined, h2, evs3)"
      by (cases "run_tasks w args sched (launched (Semaphore DEFAULT n) h contexts)
         (prepared pname (global_dockerd (h (hd contexts))) contexts h)")
    obtain res h3 and evs5 :: "'a event list" where rp:
      "run_report_complete_pipeline contexts h2 = (res, h3, evs5)"
      by (cases "run_report_complete_pipeline contexts h2 :: _ \<times> _ \<times> 'a event list")
    have run: "run_connectors_pipelines env sched contexts w pname n args h =
        after_start env sched contexts w pname n args h
          (global_dockerd (h (hd contexts))) (prologue (h (hd contexts)))"
      using False by (simp add: run_connectors_pipelines_Cons Cons)
    note eq = after_start_eq[OF rt rp, of env "prologue (h (hd contexts))"]
    show ?thesis
    proof (cases joined)
      case (Inl e)
      with TaskRaises[OF ne False rt[unfolded Inl]] show ?thesis
        by (simp add: run eq fan_out_events_def)
    next
      case (Inr u)
      then have Inr: "joined = Inr ()" by simp
      show ?thesis
      proof (cases "stop_raises env")
        case True
        with StopRaises[OF ne False True rt[unfolded Inr]] Inr show ?thesis
          by (simp add: run eq fan_out_events_def)
      next
        case nostop: False
        from run_report_complete_pipeline_events[OF rp]
        consider (none) "evs5 = []" | (some) rep where "evs5 = [ReportCreated rep, ReportSaved rep]"
          by blast
        then show ?thesis
        proof cases
          case none
          have "\<exists>e. res = Inl e"
            using rp none
            by (auto simp: run_report_complete_pipeline_def Let_def Cons split: sum.splits)
          then obtain e where res: "res = Inl e" ..
          from ReportRaises[OF ne False nostop rt[unfolded Inr] rp[unfolded res none]]
          show ?thesis
            by (simp add: run eq fan_out_events_def Inr nostop res none)
        next
          case some
          have res: "res = Inr ()"
            using rp some
            by (auto simp: run_report_complete_pipeline_def Let_def Cons split: sum.splits)
          from Done[OF ne False nostop rt[unfolded Inr] rp[unfolded res some]]
          show ?thesis
            by (simp add: run eq fan_out_events_def Inr nostop res some)
        qed
      qed
    qed
  qed
qed

section \<open>Events of a run\<close>

lemma prologue_setup: "list_all is_setup_event (prologue c)"
  by (simp add: prologue_def credential_events_def is_setup_event_def)

lemma setup_not_task: "is_setup_event e \<Longrightarrow> \<not> is_task_event e"
  by (cases e) (auto simp: is_setup_event_def)

lemma setup_not_started: "is_setup_event e \<Longrightarrow> e \<noteq> DockerdStarted"
  by (auto simp: is_setup_event_def)

lemma setup_not_stop: "is_setup_event e \<Longrightarrow> e \<noteq> DockerdStopCalled"
  by (auto simp: is_setup_event_def)



lemma running_is_task: "is_running_event e \<Longrightarrow> is_task_event e"
  by (cases e) auto

lemma raised_is_running: "is_TaskRaised e \<Longrightarrow> is_running_event e"
  by (cases e) auto

lemma running_not_setup: "is_running_event e \<Longrightarrow> \<not> is_service_setup e"
  by (cases e) auto


lemma fan_out_no_stop:
  assumes "list_all is_running_event evs3"
  shows "DockerdStopCalled \<notin> set (fan_out_events n args h contexts evs3)"
proof -
  have "DockerdStopCalled \<notin> set (prologue (h (hd contexts)) :: 'a event list)"
    using prologue_setup setup_not_stop by (fastforce simp: list_all_iff)
  moreover have "DockerdStopCalled \<notin> set (launch_events (Semaphore DEFAULT n) args h contexts)"
    by (auto simp: launch_events_def)
  moreover have "DockerdStopCalled \<notin> set evs3"
    using assms by (auto simp: list_all_iff)
  ultimately show ?thesis by (simp add: fan_out_events_def)
qed

lemma fan_out_raised:
  assumes "list_all is_running_event evs3"
  shows "list_ex is_TaskRaised (fan_out_events n args h contexts evs3) = list_ex is_TaskRaised evs3"
proof -
  have "\<not> list_ex is_TaskRaised (prologue (h (hd contexts)) :: 'a event list)"
    using prologue_setup setup_not_task raised_is_running running_is_task
    by (fastforce simp: list_all_iff list_ex_iff)
  moreover have "\<not> list_ex is_TaskRaised (launch_events (Semaphore DEFAULT n) args h contexts)"
    by (auto simp: launch_events_def list_ex_iff)
  ultimately show ?thesis by (auto simp: fan_out_events_def list_ex_iff)
qed

lemma raised_refs_fan_out:
  "raised_refs (fan_out_events n args h contexts evs3) = raised_refs evs3"
proof -
  have "\<not> list_ex is_TaskRaised (prologue (h (hd contexts)) :: 'a event list)"
    using prologue_setup setup_not_task raised_is_running running_is_task
    by (fastforce simp: list_all_iff list_ex_iff)
  then have "raised_refs (prologue (h (hd contexts)) :: 'a event list) = []"
    by (simp add: raised_refs_Nil_iff)
  moreover have "\<not> list_ex is_TaskRaised (launch_events (Semaphore DEFAULT n) args h contexts)"
    by (auto simp: launch_events_def list_ex_iff)
  then have "raised_refs (launch_events (Semaphore DEFAULT n) args h contexts) = []"
    by (simp add: raised_refs_Nil_iff)
  ultimately show ?thesis
    by (simp add: fan_out_events_def raised_refs_append)
qed

lemma filter_setup_prologue:
  "filter is_service_setup (prologue c) = credential_events c"
  by (simp add: prologue_def credential_events_def)

lemma filter_setup_fan_out:
  assumes "list_all is_running_event evs3"
  shows "filter is_service_setup (fan_out_events n args h contexts evs3) =
           credential_events (h (hd contexts))"
proof -
  have "filter is_service_setup evs3 = []"
    using assms running_not_setup by (auto simp: filter_empty_conv list_all_iff)
  moreover have "filter is_service_setup (launch_events (Semaphore DEFAULT n) args h contexts) = []"
    by (auto simp: filter_empty_conv launch_events_def)
  ultimately show ?thesis
    by (simp add: fan_out_events_def filter_setup_prologue)
qed





lemma filter_report_fan_out:
  assumes "list_all is_running_event evs3"
  shows "filter is_report_event (fan_out_events n args h contexts evs3) = []"
proof -
  have "\<not> is_report_event e" if "is_running_event e" for e :: "'a event"
    using that by (cases e) auto
  then have "filter is_report_event evs3 = []"
    using assms by (auto simp: filter_empty_conv list_all_iff)
  moreover have "filter is_report_event (launch_events (Semaphore DEFAULT n) args h contexts) = []"
    by (auto simp: filter_empty_conv launch_events_def)
  moreover have "\<not> is_report_event e" if "is_setup_event e" for e :: "'a event"
    using that by (cases e) (auto simp: is_setup_event_def)
  then have "filter is_report_event (prologue (h (hd contexts)) :: 'a event list) = []"
    using prologue_setup by (fastforce simp: filter_empty_conv list_all_iff)
  ultimately show ?thesis
    by (simp add: fan_out_events_def)
qed






section \<open>The heap after a run\<close>



section \<open>The example runs\<close>

lemma example_run_trace:
  "trace example_run =
     [ConnectionOpened, SetSecret ''DOCKER_HUB_USERNAME'' ''user'',
      SetSecret ''DOCKER_HUB_PASSWORD'' ''secret'',
      WithGlobalDockerdService
        (DockerdService (Some (Secret ''DOCKER_HUB_USERNAME'' ''user'',
                               Secret ''DOCKER_HUB_PASSWORD'' ''secret''))),
      DockerdStartCalled, DockerdStarted,
      TaskLaunched 0 (Semaphore (FORCED JAVA) 1) [''--fast''],
      TaskLaunched 2 (Semaphore DEFAULT 2) [''--fast''],
      TaskInvoked 0 (Semaphore (FORCED JAVA) 1) [''--fast''], TaskSuspended 0,
      TaskInvoked 2 (Semaphore DEFAULT 2) [''--fast''], TaskSuspended 2,
      TaskReturned 2, TaskReturned 0,
      TaskGroupJoined, DockerdStopCalled, DockerdStopped,
      ReportCreated
        \<lparr>name = ''Report upload nightly'', pipeline_context = 0,
         steps_results = [\<lparr>step_context = 0, status = StepStatus_SUCCESS\<rparr>,
                          \<lparr>step_context = 2, status = StepStatus_SUCCESS\<rparr>],
         filename = ''complete''\<rparr>,
      ReportSaved
        \<lparr>name = ''Report upload nightly'', pipeline_context = 0,
         steps_results = [\<lparr>step_context = 0, status = StepStatus_SUCCESS\<rparr>,
                          \<lparr>step_context = 2, status = StepStatus_SUCCESS\<rparr>],
         filename = ''complete''\<rparr>,
      ConnectionClosed]"
  by code_simp

lemma example_run_heap_0:
  "final_heap example_run 0 =
     \<lparr>state = SUCCESSFUL, connector = \<lparr>technical_name = ''source-postgres'', language = JAVA\<rparr>,
      docker_hub_username = Some ''user'', docker_hub_password = Some ''secret'',
      report_output_prefix = ''nightly'', pipeline_name = ''Report upload nightly'',
      dagger_client = Some (Pipeline ''test - source-postgres''),
      dockerd_service = Some (DockerdService (Some (Secret ''DOCKER_HUB_USERNAME'' ''user'',
                               Secret ''DOCKER_HUB_PASSWORD'' ''secret'')))\<rparr>"
  by code_simp

lemma example_run_heap_2:
  "final_heap example_run 2 =
     \<lparr>state = SUCCESSFUL, connector = \<lparr>technical_name = ''source-faker'', language = PYTHON\<rparr>,
      docker_hub_username = Some ''user'', docker_hub_password = Some ''secret'',
      report_output_prefix = ''nightly'', pipeline_name = ''test'',
      dagger_client = Some (Pipeline ''test - source-faker''),
      dockerd_service = Some (DockerdService (Some (Secret ''DOCKER_HUB_USERNAME'' ''user'',
                               Secret ''DOCKER_HUB_PASSWORD'' ''secret'')))\<rparr>"
  by code_simp

lemma example_failing_run_trace:
  "trace example_failing_run =
     [ConnectionOpened, SetSecret ''DOCKER_HUB_USERNAME'' ''user'',
      SetSecret ''DOCKER_HUB_PASSWORD'' ''secret'',
      WithGlobalDockerdService
        (DockerdService (Some (Secret ''DOCKER_HUB_USERNAME'' ''user'',
                               Secret ''DOCKER_HUB_PASSWORD'' ''secret''))),
      DockerdStartCalled, DockerdStarted,
      TaskLaunched 0 (Semaphore (FORCED JAVA) 1) [''--fast''],
      TaskLaunched 2 (Semaphore DEFAULT 2) [''--fast''],
      TaskLaunched 4 (Semaphore DEFAULT 2) [''--fast''],
      TaskInvoked 0 (Semaphore (FORCED JAVA) 1) [''--fast''], TaskRaised 0,
      TaskInvoked 2 (Semaphore DEFAULT 2) [''--fast''], TaskSuspended 2,
      TaskInvoked 4 (Semaphore DEFAULT 2) [''--fast''], TaskReturned 4,
      TaskCancelled 2, TaskGroupJoined, ConnectionClosed]"
  by code_simp

section \<open>Properties\<close>

text \<open>
  C1. An empty list of contexts: the spec has the call return the empty list at once,
  without starting the service and without a report. The code opens the Dagger connection
  and then reads \<^verbatim>\<open>contexts[0]\<close>, which raises \<^verbatim>\<open>IndexError\<close>; the connection is closed on
  the way out, the service is not started and no report is made.
\<close>

theorem run_connectors_pipelines_empty_raises:
  "run_connectors_pipelines env sched [] connector_pipeline pname concurrency args h =
     (Inl IndexError, h, [ConnectionOpened, ConnectionClosed])"
  by (simp add: run_connectors_pipelines_def)

text \<open>
  C2. The classifier maps the state Successful to the outcome Success, the states Failure
  and Error to the outcome Failure, and raises \<^verbatim>\<open>ValueError\<close> for any other state, Pending
  included.
\<close>

theorem context_to_step_result_table:
  "context_to_step_result h context =
     (case state (h context) of
        SUCCESSFUL \<Rightarrow> Inr \<lparr>step_context = context, status = StepStatus_SUCCESS\<rparr>
      | FAILURE \<Rightarrow> Inr \<lparr>step_context = context, status = StepStatus_FAILURE\<rparr>
      | ERROR \<Rightarrow> Inr \<lparr>step_context = context, status = StepStatus_FAILURE\<rparr>
      | other \<Rightarrow> Inl (ValueError other))"
  by (simp add: context_to_step_result_def NoOpStep_run_def split: ContextState.splits)

text \<open>
  C3. If a context of a non-empty batch is in a state the classifier does not accept,
  \<^verbatim>\<open>run_report_complete_pipeline\<close> raises \<^verbatim>\<open>ValueError\<close> out of the classification, before
  the report is built: it causes no event, so no report is created and none is saved.
\<close>

theorem unrecognized_state_raises_before_report:
  assumes "context \<in> set contexts" and "\<not> recognized (state (h context))"
  shows "\<exists>st. \<not> recognized st \<and>
           run_report_complete_pipeline contexts h =
             (Inl (ValueError st), renamed contexts h, ([] :: 'a event list))"
proof -
  from assms(1) have ne: "contexts \<noteq> []" by auto
  from assms(2) have "\<not> recognized (state (renamed contexts h context))" by simp
  from classify_all_unrecognized[of "context" contexts "renamed contexts h", OF assms(1) this]
  obtain st where "classify_all (renamed contexts h) contexts = Inl (ValueError st)"
    and "\<not> recognized st" by blast
  then show ?thesis
    by (auto simp: run_report_complete_pipeline_Cons[OF ne])
qed

theorem unrecognized_state_raises_before_report_witness:
  "(2::nat) \<in> set [0, 2] \<and> \<not> recognized (state (example_heap 2)) \<and>
   (\<exists>st. \<not> recognized st \<and>
      run_report_complete_pipeline [0, 2] example_heap =
        (Inl (ValueError st), renamed [0, 2] example_heap, ([] :: string event list)))"
proof -
  have a: "(2::nat) \<in> set [0, 2]" by simp
  have b: "\<not> recognized (state (example_heap 2))"
    by (simp add: recognized_def example_heap_def example_context_def)
  from unrecognized_state_raises_before_report[of 2 "[0, 2]" example_heap, OF a b] a b
  show ?thesis by blast
qed

text \<open>
  C4. For a non-empty batch whose service starts and stops, whose tasks do not raise and
  whose contexts all end in accepted states, the call returns the list of contexts and
  exactly one report is created and saved; its results are the classifications of the
  contexts in the order of the input list, the i-th result being that of the i-th context,
  whatever the order in which the tasks finished.
\<close>

theorem report_results_in_input_order:
  fixes connector_pipeline :: "'a work"
  assumes "contexts \<noteq> []"
    and "\<not> start_raises env" and "\<not> stop_raises env"
    and "\<not> list_ex is_TaskRaised
            (trace (run_connectors_pipelines env sched contexts connector_pipeline pname
                      concurrency args h))"
    and "\<forall>context \<in> set contexts.
           recognized (state (final_heap
             (run_connectors_pipelines env sched contexts connector_pipeline pname
                concurrency args h) context))"
  shows "outcome (run_connectors_pipelines env sched contexts connector_pipeline pname
                    concurrency args h) = Inr contexts \<and>
         (\<exists>rep.
           filter is_report_event
             (trace (run_connectors_pipelines env sched contexts connector_pipeline pname
                       concurrency args h)) = [ReportCreated rep, ReportSaved rep] \<and>
           map step_context (steps_results rep) = contexts \<and>
           map Inr (steps_results rep) =
             map (context_to_step_result
                    (final_heap (run_connectors_pipelines env sched contexts connector_pipeline
                                   pname concurrency args h))) contexts)"
proof (cases env sched contexts connector_pipeline pname concurrency args h
    rule: run_connectors_pipelines_cases)
  case Empty
  with assms show ?thesis by simp
next
  case StartRaises
  with assms show ?thesis by simp
next
  case (TaskRaises e h2 evs3)
  note run = run_tasks_events_running[OF TaskRaises(3)]
  have "list_ex is_TaskRaised evs3"
    using run_tasks_raised_iff[OF TaskRaises(3)] by simp
  with assms(4) show ?thesis
    by (simp add: TaskRaises(4) fan_out_raised[OF run])
next
  case (StopRaises h2 evs3)
  with assms show ?thesis by simp
next
  case (ReportRaises e h2 evs3 h3)
  from run_report_complete_pipeline_Inl[OF ReportRaises(5)] assms(5)
  show ?thesis
    by (auto simp: ReportRaises(6))
next
  case (Done h2 evs3 h3 rep)
  note run = run_tasks_events_running[OF Done(4)]
  note cl = run_report_complete_pipeline_Inr[OF Done(5)]
  have "filter is_report_event
      (trace (run_connectors_pipelines env sched contexts connector_pipeline pname
                concurrency args h)) = [ReportCreated rep, ReportSaved rep]"
    by (simp add: Done(6) filter_report_fan_out[OF run])
  moreover have "map step_context (steps_results rep) = contexts"
    using classify_all_step_context[OF cl] .
  moreover have "map Inr (steps_results rep) = map (context_to_step_result h3) contexts"
    using classify_all_Inr[OF cl] .
  ultimately show ?thesis
    by (auto simp: Done(6))
qed

theorem report_results_in_input_order_witness:
  "outcome example_run = Inr [0, 2] \<and>
   (\<exists>rep. filter is_report_event (trace example_run) = [ReportCreated rep, ReportSaved rep] \<and>
         map step_context (steps_results rep) = [0, 2] \<and>
         map Inr (steps_results rep) = map (context_to_step_result (final_heap example_run)) [0, 2])"
proof -
  have a: "[0, 2] \<noteq> ([] :: ref list)" by simp
  have b: "\<not> start_raises example_env" and c: "\<not> stop_raises example_env"
    by (simp_all add: example_env_def)
  have d: "\<not> list_ex is_TaskRaised (trace example_run)"
    by (simp add: example_run_trace)
  have e: "\<forall>context \<in> set [0, 2]. recognized (state (final_heap example_run context))"
    by (simp add: example_run_heap_0 example_run_heap_2 recognized_def)
  show ?thesis
    using report_results_in_input_order[OF a b c d[unfolded example_run_def]
        e[unfolded example_run_def]]
    unfolding example_run_def .
qed



text \<open>
  C6. \<^verbatim>\<open>dockerd_service.start()\<close> returns before any task is launched or begins: in the
  events of a run, nothing before the return of start is an event of a task (and if start
  never returns, no event of the run is).
\<close>

theorem start_returns_before_any_task:
  fixes connector_pipeline :: "'a work"
  shows "list_all (\<lambda>e. \<not> is_task_event e)
     (takeWhile (\<lambda>e. e \<noteq> DockerdStarted)
        (trace (run_connectors_pipelines env sched contexts connector_pipeline pname
                  concurrency args h)))"
proof -
  let ?P = "\<lambda>e::'a event. e \<noteq> DockerdStarted"
  have pro: "\<And>c. \<forall>e \<in> set (prologue c :: 'a event list). ?P e \<and> \<not> is_task_event e"
    using prologue_setup setup_not_task setup_not_started
    by (fastforce simp: list_all_iff)
  have started: "\<And>c evs. takeWhile ?P (prologue c @ DockerdStarted # evs) = prologue c"
    using pro by (simp add: takeWhile_append)
  have fan: "\<And>evs3 tail. list_all (\<lambda>e. \<not> is_task_event e)
      (takeWhile ?P (fan_out_events concurrency args h contexts evs3 @ tail))"
    using pro by (simp add: fan_out_events_def started list_all_iff)
  show ?thesis
  proof (cases env sched contexts connector_pipeline pname concurrency args h
      rule: run_connectors_pipelines_cases)
    case Empty
    then show ?thesis by simp
  next
    case StartRaises
    then show ?thesis using pro by (simp add: takeWhile_append list_all_iff)
  next
    case (TaskRaises e h2 evs3)
    then show ?thesis using fan by simp
  next
    case (StopRaises h2 evs3)
    then show ?thesis using fan by simp
  next
    case (ReportRaises e h2 evs3 h3)
    then show ?thesis using fan by simp
  next
    case (Done h2 evs3 h3 rep)
    then show ?thesis using fan by simp
  qed
qed

theorem start_returns_before_any_task_witness:
  "list_all (\<lambda>e. \<not> is_task_event e)
     (takeWhile (\<lambda>e. e \<noteq> DockerdStarted) (trace example_run)) \<and>
   list_ex is_task_event (trace example_run)"
proof -
  note start_returns_before_any_task[of example_env "[1, 0]" "[0, 2]" succeeding_pipeline
      "''test''" 2 "[''--fast'']" example_heap, folded example_run_def]
  moreover have "list_ex is_task_event (trace example_run)"
    by (simp add: example_run_trace)
  ultimately show ?thesis by blast
qed

text \<open>
  C7 says \<^verbatim>\<open>stop\<close> is called exactly once, after the join, also when a task raised. In
  the run where the first task raises, \<^verbatim>\<open>stop\<close> is not called.
\<close>

theorem stop_not_called_when_task_raises:
  "TaskRaised 0 \<in> set (trace example_failing_run) \<and>
   \<not> count_list (trace example_failing_run) DockerdStopCalled = 1"
  by (simp add: example_failing_run_trace)

text \<open>
  C7, amended. For a non-empty batch whose service has started: if no task raised,
  \<^verbatim>\<open>dockerd_service.stop()\<close> is called exactly once, right after the task group is left, and
  no event of a task follows it; if a task raised, \<^verbatim>\<open>stop\<close> is not called and the call
  raises the error of the task group, which carries the tasks that raised.
\<close>

theorem stop_once_after_join_unless_task_raised:
  fixes connector_pipeline :: "'a work"
  assumes "contexts \<noteq> []" and "\<not> start_raises env"
  shows "let run = run_connectors_pipelines env sched contexts connector_pipeline pname
                     concurrency args h;
             evs = trace run
         in if list_ex is_TaskRaised evs
            then count_list evs DockerdStopCalled = 0 \<and>
                 outcome run = Inl (TaskGroupError (raised_refs evs))
            else count_list evs DockerdStopCalled = 1 \<and>
                 (\<exists>pre post. evs = pre @ [TaskGroupJoined, DockerdStopCalled] @ post \<and>
                    \<not> list_ex is_task_event post)"
proof (cases env sched contexts connector_pipeline pname concurrency args h
    rule: run_connectors_pipelines_cases)
  case Empty
  with assms show ?thesis by simp
next
  case StartRaises
  with assms show ?thesis by simp
next
  case (TaskRaises e h2 evs3)
  have run: "list_all is_running_event evs3"
    using run_tasks_events_running[OF TaskRaises(3)] .
  have raised: "list_ex is_TaskRaised evs3"
    using run_tasks_raised_iff[OF TaskRaises(3)] by simp
  have "e = TaskGroupError (raised_refs evs3)"
    using run_tasks_error[OF TaskRaises(3)] by (simp split: if_splits)
  with raised show ?thesis
    using fan_out_no_stop[OF run, of concurrency args h contexts]
    by (simp add: TaskRaises(4) fan_out_raised[OF run] Let_def raised_refs_append
          raised_refs_fan_out)
next
  case (StopRaises h2 evs3)
  have run: "list_all is_running_event evs3"
    using run_tasks_events_running[OF StopRaises(4)] .
  have nr: "\<not> list_ex is_TaskRaised evs3"
    using run_tasks_raised_iff[OF StopRaises(4)] by simp
  have split: "fan_out_events concurrency args h contexts evs3 =
      (prologue (h (hd contexts)) @ [DockerdStarted]
        @ launch_events (Semaphore DEFAULT concurrency) args h contexts @ evs3) @ [TaskGroupJoined]"
    by (simp add: fan_out_events_def)
  have "\<exists>pre post. fan_out_events concurrency args h contexts evs3
            @ [DockerdStopCalled, ConnectionClosed]
          = pre @ [TaskGroupJoined, DockerdStopCalled] @ post \<and> \<not> list_ex is_task_event post"
    by (rule exI[of _ "prologue (h (hd contexts)) @ [DockerdStarted]
        @ launch_events (Semaphore DEFAULT concurrency) args h contexts @ evs3"],
        rule exI[of _ "[ConnectionClosed]"]) (simp add: split)
  then show ?thesis
    using fan_out_no_stop[OF run, of concurrency args h contexts] nr
    by (simp add: StopRaises(5) fan_out_raised[OF run] Let_def)
next
  case (ReportRaises e h2 evs3 h3)
  have run: "list_all is_running_event evs3"
    using run_tasks_events_running[OF ReportRaises(4)] .
  have nr: "\<not> list_ex is_TaskRaised evs3"
    using run_tasks_raised_iff[OF ReportRaises(4)] by simp
  have split: "fan_out_events concurrency args h contexts evs3 =
      (prologue (h (hd contexts)) @ [DockerdStarted]
        @ launch_events (Semaphore DEFAULT concurrency) args h contexts @ evs3) @ [TaskGroupJoined]"
    by (simp add: fan_out_events_def)
  have "\<exists>pre post. fan_out_events concurrency args h contexts evs3
            @ [DockerdStopCalled, DockerdStopped, ConnectionClosed]
          = pre @ [TaskGroupJoined, DockerdStopCalled] @ post \<and> \<not> list_ex is_task_event post"
    by (rule exI[of _ "prologue (h (hd contexts)) @ [DockerdStarted]
        @ launch_events (Semaphore DEFAULT concurrency) args h contexts @ evs3"],
        rule exI[of _ "[DockerdStopped, ConnectionClosed]"]) (simp add: split)
  then show ?thesis
    using fan_out_no_stop[OF run, of concurrency args h contexts] nr
    by (simp add: ReportRaises(6) fan_out_raised[OF run] Let_def)
next
  case (Done h2 evs3 h3 rep)
  have run: "list_all is_running_event evs3"
    using run_tasks_events_running[OF Done(4)] .
  have nr: "\<not> list_ex is_TaskRaised evs3"
    using run_tasks_raised_iff[OF Done(4)] by simp
  have split: "fan_out_events concurrency args h contexts evs3 =
      (prologue (h (hd contexts)) @ [DockerdStarted]
        @ launch_events (Semaphore DEFAULT concurrency) args h contexts @ evs3) @ [TaskGroupJoined]"
    by (simp add: fan_out_events_def)
  have "\<exists>pre post. fan_out_events concurrency args h contexts evs3
            @ [DockerdStopCalled, DockerdStopped, ReportCreated rep, ReportSaved rep,
               ConnectionClosed]
          = pre @ [TaskGroupJoined, DockerdStopCalled] @ post \<and> \<not> list_ex is_task_event post"
    by (rule exI[of _ "prologue (h (hd contexts)) @ [DockerdStarted]
        @ launch_events (Semaphore DEFAULT concurrency) args h contexts @ evs3"],
        rule exI[of _ "[DockerdStopped, ReportCreated rep, ReportSaved rep, ConnectionClosed]"])
       (simp add: split)
  then show ?thesis
    using fan_out_no_stop[OF run, of concurrency args h contexts] nr
    by (simp add: Done(6) fan_out_raised[OF run] Let_def)
qed

theorem stop_once_after_join_unless_task_raised_witness:
  "[0, 2] \<noteq> ([] :: ref list) \<and> \<not> start_raises example_env \<and>
   \<not> list_ex is_TaskRaised (trace example_run) \<and>
   count_list (trace example_run) DockerdStopCalled = 1 \<and>
   (\<exists>pre post. trace example_run = pre @ [TaskGroupJoined, DockerdStopCalled] @ post \<and>
      \<not> list_ex is_task_event post) \<and>
   list_ex is_TaskRaised (trace example_failing_run) \<and>
   count_list (trace example_failing_run) DockerdStopCalled = 0 \<and>
   outcome example_failing_run = Inl (TaskGroupError (raised_refs (trace example_failing_run)))"
proof -
  have a: "[0, 2] \<noteq> ([] :: ref list)" and a': "[0, 2, 4] \<noteq> ([] :: ref list)" by simp_all
  have b: "\<not> start_raises example_env" by (simp add: example_env_def)
  have d: "\<not> list_ex is_TaskRaised (trace example_run)"
    by (simp add: example_run_trace)
  have d': "list_ex is_TaskRaised (trace example_failing_run)"
    by (simp add: example_failing_run_trace)
  note t = stop_once_after_join_unless_task_raised[OF a b, of "[1, 0]" succeeding_pipeline
      "''test''" 2 "[''--fast'']" example_heap, folded example_run_def]
  note t' = stop_once_after_join_unless_task_raised[OF a' b, of "[]" failing_pipeline
      "''test''" 2 "[''--fast'']" example_heap, folded example_failing_run_def]
  from t d have "count_list (trace example_run) DockerdStopCalled = 1 \<and>
      (\<exists>pre post. trace example_run = pre @ [TaskGroupJoined, DockerdStopCalled] @ post \<and>
         \<not> list_ex is_task_event post)"
    by (simp only: Let_def if_False)
  moreover from t' d' have "count_list (trace example_failing_run) DockerdStopCalled = 0 \<and>
      outcome example_failing_run
        = Inl (TaskGroupError (raised_refs (trace example_failing_run)))"
    by (simp only: Let_def if_True)
  ultimately show ?thesis using a b d d' by blast
qed






text \<open>
  C10. The secrets and the service of a run are read off the first context alone: the two
  secrets are set, and the service is built with them, iff the first context has a username
  and a password that are both present and not empty; otherwise the service is built
  without credentials. No other context appears in it.
\<close>

theorem service_credentials_from_first_context_only:
  fixes connector_pipeline :: "'a work"
  shows "filter is_service_setup
     (trace (run_connectors_pipelines env sched (first # rest) connector_pipeline pname
               concurrency args h)) =
     (case (docker_hub_username (h first), docker_hub_password (h first)) of
        (Some username, Some password) \<Rightarrow>
          if username \<noteq> [] \<and> password \<noteq> []
          then [SetSecret ''DOCKER_HUB_USERNAME'' username,
                SetSecret ''DOCKER_HUB_PASSWORD'' password,
                WithGlobalDockerdService
                  (DockerdService (Some (Secret ''DOCKER_HUB_USERNAME'' username,
                                         Secret ''DOCKER_HUB_PASSWORD'' password)))]
          else [WithGlobalDockerdService (DockerdService None)]
      | _ \<Rightarrow> [WithGlobalDockerdService (DockerdService None)])"
proof -
  have cred: "credential_events (h first) =
     (case (docker_hub_username (h first), docker_hub_password (h first)) of
        (Some username, Some password) \<Rightarrow>
          if username \<noteq> [] \<and> password \<noteq> []
          then [SetSecret ''DOCKER_HUB_USERNAME'' username,
                SetSecret ''DOCKER_HUB_PASSWORD'' password,
                WithGlobalDockerdService
                  (DockerdService (Some (Secret ''DOCKER_HUB_USERNAME'' username,
                                         Secret ''DOCKER_HUB_PASSWORD'' password)))]
          else [WithGlobalDockerdService (DockerdService None)]
      | _ \<Rightarrow> [WithGlobalDockerdService (DockerdService None :: DockerdService) :: 'a event])"
    by (cases "docker_hub_username (h first)"; cases "docker_hub_password (h first)")
       (simp_all add: credential_events_def global_dockerd_def)
  have "filter is_service_setup
     (trace (run_connectors_pipelines env sched (first # rest) connector_pipeline pname
               concurrency args h)) = credential_events (h first)"
  proof (cases env sched "first # rest" connector_pipeline pname concurrency args h
      rule: run_connectors_pipelines_cases)
    case Empty
    then show ?thesis by simp
  next
    case StartRaises
    then show ?thesis by (simp add: filter_setup_prologue)
  next
    case (TaskRaises e h2 evs3)
    from run_tasks_events_running[OF TaskRaises(3)] show ?thesis
      by (simp add: TaskRaises(4) filter_setup_fan_out[where contexts = "first # rest", simplified])
  next
    case (StopRaises h2 evs3)
    from run_tasks_events_running[OF StopRaises(4)] show ?thesis
      by (simp add: StopRaises(5) filter_setup_fan_out[where contexts = "first # rest", simplified])
  next
    case (ReportRaises e h2 evs3 h3)
    from run_tasks_events_running[OF ReportRaises(4)] show ?thesis
      by (simp add: ReportRaises(6) filter_setup_fan_out[where contexts = "first # rest", simplified])
  next
    case (Done h2 evs3 h3 rep)
    from run_tasks_events_running[OF Done(4)] show ?thesis
      by (simp add: Done(6) filter_setup_fan_out[where contexts = "first # rest", simplified])
  qed
  then show ?thesis by (simp only: cred)
qed

theorem service_credentials_from_first_context_only_witness:
  "filter is_service_setup (trace example_run) =
     [SetSecret ''DOCKER_HUB_USERNAME'' ''user'', SetSecret ''DOCKER_HUB_PASSWORD'' ''secret'',
      WithGlobalDockerdService
        (DockerdService (Some (Secret ''DOCKER_HUB_USERNAME'' ''user'',
                               Secret ''DOCKER_HUB_PASSWORD'' ''secret'')))]"
proof -
  note t = service_credentials_from_first_context_only[of example_env "[1, 0]" 0 "[2]"
      succeeding_pipeline "''test''" 2 "[''--fast'']" example_heap, folded example_run_def]
  then show ?thesis
    by (simp add: example_heap_def example_context_def)
qed

end
